theory Spec2Isabelle
  imports Main
begin

section \<open>Notification settings: the data model\<close>

text \<open>
  The module works on plain JavaScript objects with string keys. An object is modelled by
  the list of its own enumerable properties in enumeration order, which is what
  \<^verbatim>\<open>Object.entries\<close> returns; \<^verbatim>\<open>Object.keys\<close> is \<open>map fst\<close>,
  \<^verbatim>\<open>Object.values\<close> is \<open>map snd\<close> and a property read \<^verbatim>\<open>o[k]\<close> is
  \<open>map_of o k\<close>, with \<open>None\<close> for \<^verbatim>\<open>undefined\<close>. An object has every key once;
  where a statement depends on that, it says so (\<open>wf_settings\<close>).

  A read \<^verbatim>\<open>o[k]\<close> of a key the object does not own finds what the object inherits from
  \<^verbatim>\<open>Object.prototype\<close>, under the names \<open>object_prototype_names\<close>: functions, and the
  prototype itself for \<^verbatim>\<open>__proto__\<close>. Where the module goes on to read \<^verbatim>\<open>user\<close>,
  \<^verbatim>\<open>project\<close> or \<^verbatim>\<open>organization\<close> of the value, or subtracts it, an inherited value
  gives what \<^verbatim>\<open>undefined\<close> gives, and \<open>None\<close> stands for both.
  \<open>getStateToPutForProvider\<close> lists the entries of the value and tells the two apart.
  The reads lodash does are discussed with the merge.
\<close>

type_synonym 'v obj = "(string \<times> 'v) list"

type_synonym providers = "string obj"

type_synonym NotificationSettingsObject = "providers obj obj obj"

datatype js_error = TypeError | RangeError

definition object_prototype_names :: "string list" where
  "object_prototype_names =
     [''constructor'', ''__defineGetter__'', ''__defineSetter__'', ''hasOwnProperty'',
      ''__lookupGetter__'', ''__lookupSetter__'', ''isPrototypeOf'', ''propertyIsEnumerable'',
      ''toString'', ''valueOf'', ''__proto__'', ''toLocaleString'']"

text \<open>
  JavaScript enumerates the keys that are array indices first, in ascending numeric order,
  and the other string keys after them in the order of their creation. \<open>array_index\<close>
  reads a canonical array index (\<^verbatim>\<open>"0"\<close>, \<^verbatim>\<open>"17"\<close>, below \<open>2^32 - 1\<close>).
\<close>

definition is_digit :: "char \<Rightarrow> bool" where
  "is_digit c = (c \<in> set ''0123456789'')"

definition digit_val :: "char \<Rightarrow> nat" where
  "digit_val c = of_char c - 48"

definition array_index :: "string \<Rightarrow> nat option" where
  "array_index s =
     (if s \<noteq> [] \<and> list_all is_digit s \<and> (s = ''0'' \<or> hd s \<noteq> CHR ''0'')
      then (let n = foldl (\<lambda>a c. 10 * a + digit_val c) 0 s
            in if n < 4294967295 then Some n else None)
      else None)"

fun obj_replace :: "string \<Rightarrow> 'v \<Rightarrow> 'v obj \<Rightarrow> 'v obj" where
  "obj_replace k v [] = []"
| "obj_replace k v ((k', v') # xs) =
     (if k' = k then (k, v) # xs else (k', v') # obj_replace k v xs)"

fun obj_create :: "string \<Rightarrow> 'v \<Rightarrow> 'v obj \<Rightarrow> 'v obj" where
  "obj_create k v [] = [(k, v)]"
| "obj_create k v ((k', v') # xs) =
     (case array_index k of
        None \<Rightarrow> (k', v') # obj_create k v xs
      | Some n \<Rightarrow>
          (case array_index k' of
             None \<Rightarrow> (k, v) # (k', v') # xs
           | Some m \<Rightarrow> if m < n then (k', v') # obj_create k v xs
                      else (k, v) # (k', v') # xs))"

definition obj_set :: "string \<Rightarrow> 'v \<Rightarrow> 'v obj \<Rightarrow> 'v obj" where
  \<comment> \<open>\<^verbatim>\<open>o[k] = v\<close>: an existing property keeps its place, a new one is created.\<close>
  "obj_set k v xs = (if k \<in> set (map fst xs) then obj_replace k v xs else obj_create k v xs)"

definition fromEntries :: "(string \<times> 'v) list \<Rightarrow> 'v obj" where
  \<comment> \<open>\<^verbatim>\<open>Object.fromEntries\<close>: the entries are stored one after the other.\<close>
  "fromEntries es = foldl (\<lambda>acc (k, v). obj_set k v acc) [] es"

fun split_on :: "char \<Rightarrow> string \<Rightarrow> string list" where
  \<comment> \<open>\<^verbatim>\<open>s.split(c)\<close> for a separator of one character.\<close>
  "split_on c [] = [[]]"
| "split_on c (x # xs) =
     (if x = c then [] # split_on c xs
      else (case split_on c xs of
              [] \<Rightarrow> [[x]]
            | w # ws \<Rightarrow> (x # w) # ws))"

definition array_pop :: "'a list \<Rightarrow> 'a option" where
  \<comment> \<open>The value of \<^verbatim>\<open>xs.pop()\<close>: the last element, \<^verbatim>\<open>undefined\<close> on an empty array.\<close>
  "array_pop xs = (if xs = [] then None else Some (last xs))"

definition or_string :: "string option \<Rightarrow> string \<Rightarrow> string" where
  \<comment> \<open>\<^verbatim>\<open>x || d\<close> on a string or \<^verbatim>\<open>undefined\<close>: the empty string is falsy too.\<close>
  "or_string x d = (case x of None \<Rightarrow> d | Some s \<Rightarrow> if s = [] then d else s)"

section \<open>Classification of notification types\<close>

definition ALL_PROVIDERS :: providers where
  "ALL_PROVIDERS = [(''email'', ''default''), (''slack'', ''never'')]"

definition isGroupedByProject :: "string \<Rightarrow> bool" where
  "isGroupedByProject notificationType =
     (notificationType \<in> set [''alerts'', ''email'', ''workflow''])"

definition getParentKey :: "string \<Rightarrow> string" where
  "getParentKey notificationType =
     (if isGroupedByProject notificationType then ''project'' else ''organization'')"

definition getFallBackValue :: "string \<Rightarrow> string" where
  "getFallBackValue notificationType =
     (if notificationType = ''alerts'' then ''always''
      else if notificationType = ''deploy'' then ''committed_only''
      else if notificationType = ''workflow'' then ''subscribe_only''
      else '''')"

section \<open>Backfill\<close>

definition effective_fallback :: "providers \<Rightarrow> string \<Rightarrow> string" where
  \<comment> \<open>The first pass of \<^verbatim>\<open>backfillMissingProvidersWithFallback\<close>.\<close>
  "effective_fallback data fallbackValue =
     foldl (\<lambda>previousValue currentValue.
              if currentValue = ''never'' then previousValue else currentValue)
       fallbackValue (map snd data)"

definition backfillMissingProvidersWithFallback ::
  "providers \<Rightarrow> string list \<Rightarrow> string \<Rightarrow> string \<Rightarrow> providers" where
  "backfillMissingProvidersWithFallback data providerList fallbackValue scopeType =
     (let fallback = effective_fallback data fallbackValue
      in fromEntries
           (map (\<lambda>provider.
                   (provider,
                    if provider \<in> set providerList then fallback
                    else if scopeType = ''user'' then ''never''
                    else ''default''))
              (map fst ALL_PROVIDERS)))"

section \<open>Merging settings\<close>

text \<open>
  \<^verbatim>\<open>mergeNotificationSettings\<close> writes each leaf with lodash's \<^verbatim>\<open>set(output, path, value)\<close>,
  the path being the string \<^verbatim>\<open>[type, scopeType, scopeId].join('.')\<close>. lodash parses that
  string again, so the shape of the output depends on the characters of the keys, and the
  output is modelled as an untyped value: a string, an object or an array. lodash creates an
  array instead of an object where the next key of the path is an index. An array is
  modelled by its own enumerable properties (its elements under their indices, and any other
  property written to it), in enumeration order; its \<^verbatim>\<open>length\<close> is not among them, and a
  write to \<^verbatim>\<open>length\<close> is what sets an array apart from an object here.

  lodash is a dependency of the repository. The functions below follow lodash 4.17.21
  (\<^verbatim>\<open>isIndex\<close>, \<^verbatim>\<open>stringToPath\<close>, \<^verbatim>\<open>castPath\<close> with \<^verbatim>\<open>isKey\<close>, \<^verbatim>\<open>baseSet\<close> with
  \<^verbatim>\<open>assignValue\<close>). Two parts of lodash are not modelled, and the statements below keep
  away from them: \<open>stringToPath\<close> splits at the dots, which is what lodash does on a
  string without \<^verbatim>\<open>[\<close> and \<^verbatim>\<open>]\<close> (its bracket syntax is left out); and a read
  \<^verbatim>\<open>nested[key]\<close> finds own properties only, where lodash also finds what the container
  inherits from its prototype (the functions of \<^verbatim>\<open>Object.prototype\<close> and
  \<^verbatim>\<open>Array.prototype\<close>).
\<close>

datatype json = JStr string | JObj "(string \<times> json) list" | JArr "(string \<times> json) list"

definition isObject :: "json \<Rightarrow> bool" where
  "isObject v = (case v of JStr _ \<Rightarrow> False | _ \<Rightarrow> True)"

definition is_array :: "json \<Rightarrow> bool" where
  "is_array v = (case v of JArr _ \<Rightarrow> True | _ \<Rightarrow> False)"

definition props :: "json \<Rightarrow> json obj" where
  \<comment> \<open>The own enumerable properties of a value.\<close>
  "props v = (case v of JStr _ \<Rightarrow> [] | JObj ps \<Rightarrow> ps | JArr ps \<Rightarrow> ps)"

definition put :: "json \<Rightarrow> string \<Rightarrow> json \<Rightarrow> json" where
  \<comment> \<open>\<^verbatim>\<open>object[key] = value\<close> for a key other than an array's \<^verbatim>\<open>length\<close>. lodash's
      modules are not strict-mode code: a write to a primitive does nothing.\<close>
  "put object key v =
     (case object of
        JStr s \<Rightarrow> JStr s
      | JObj ps \<Rightarrow> JObj (obj_set key v ps)
      | JArr ps \<Rightarrow> JArr (obj_set key v ps))"

definition isIndex :: "string \<Rightarrow> bool" where
  \<comment> \<open>The string matches \<^verbatim>\<open>/^(?:0|[1-9]\d*)$/\<close> and its value is below
      \<^verbatim>\<open>MAX_SAFE_INTEGER\<close>.\<close>
  "isIndex s =
     (s \<noteq> [] \<and> list_all is_digit s \<and> (s = ''0'' \<or> hd s \<noteq> CHR ''0'') \<and>
      foldl (\<lambda>a c. 10 * a + digit_val c) 0 s < 9007199254740991)"

definition join_dot :: "string list \<Rightarrow> string" where
  \<comment> \<open>\<^verbatim>\<open>xs.join('.')\<close>\<close>
  "join_dot xs = (case xs of [] \<Rightarrow> [] | y # ys \<Rightarrow> foldl (\<lambda>acc s. acc @ ''.'' @ s) y ys)"

definition stringToPath :: "string \<Rightarrow> string list" where
  "stringToPath s = (if s = [] then [] else split_on CHR ''.'' s)"

definition castPath :: "string \<Rightarrow> json \<Rightarrow> string list" where
  \<comment> \<open>A path with a dot is one key only when the object has that very key.\<close>
  "castPath path object =
     (if CHR ''.'' \<notin> set path \<or> path \<in> set (map fst (props object)) then [path]
      else stringToPath path)"

definition unsafe_key :: "string \<Rightarrow> bool" where
  "unsafe_key key = (key = ''__proto__'' \<or> key = ''constructor'' \<or> key = ''prototype'')"

definition providers_json :: "providers \<Rightarrow> json" where
  "providers_json settingsByProvider = JObj (map (\<lambda>(provider, v). (provider, JStr v)) settingsByProvider)"

definition set_length_to :: "providers \<Rightarrow> js_error" where
  \<comment> \<open>\<^verbatim>\<open>array.length = settingsByProvider\<close> throws. The mapping is turned into a number
      first: with an own property \<^verbatim>\<open>toString\<close>, which is a string and cannot be called,
      that is a TypeError; otherwise the number is \<^verbatim>\<open>NaN\<close>, which is no length.\<close>
  "set_length_to settingsByProvider =
     (if ''toString'' \<in> set (map fst settingsByProvider) then TypeError else RangeError)"

definition assignValue :: "json \<Rightarrow> string \<Rightarrow> providers \<Rightarrow> js_error + json" where
  \<comment> \<open>The write at the last key of the path.\<close>
  "assignValue nested key settingsByProvider =
     (if is_array nested \<and> key = ''length'' then Inl (set_length_to settingsByProvider)
      else Inr (put nested key (providers_json settingsByProvider)))"

fun baseSet :: "json \<Rightarrow> string list \<Rightarrow> providers \<Rightarrow> js_error + json" where
  \<comment> \<open>The loop of lodash's \<^verbatim>\<open>baseSet\<close>. At a key before the last, an array's
      \<^verbatim>\<open>length\<close> is a number, so a new container is written to it: an object is no length
      (RangeError), an empty array is the length 0, which removes the elements, and the
      loop goes on in the number 0, where it writes nothing.\<close>
  "baseSet nested [] settingsByProvider = Inr nested"
| "baseSet nested (key # rest) settingsByProvider =
     (if unsafe_key key then Inr nested
      else if rest = [] then assignValue nested key settingsByProvider
      else if is_array nested \<and> key = ''length''
      then (if isIndex (hd rest)
            then Inr (JArr (filter (\<lambda>(k, _). array_index k = None) (props nested)))
            else Inl RangeError)
      else (let created = (if isIndex (hd rest) then JArr [] else JObj []);
                newValue = (case map_of (props nested) key of
                              None \<Rightarrow> created
                            | Some objValue \<Rightarrow> if isObject objValue then objValue else created)
            in case baseSet newValue rest settingsByProvider of
                 Inl e \<Rightarrow> Inl e
               | Inr child \<Rightarrow> Inr (put nested key child)))"

definition lodash_set :: "json \<Rightarrow> string \<Rightarrow> providers \<Rightarrow> js_error + json" where
  \<comment> \<open>\<^verbatim>\<open>set(object, path, value)\<close>, with the head of \<^verbatim>\<open>baseSet\<close>: nothing is written to
      a value that is not an object, and the path is cast against the object.\<close>
  "lodash_set object path settingsByProvider =
     (if \<not> isObject object then Inr object
      else baseSet object (castPath path object) settingsByProvider)"

fun fold_err :: "('s \<Rightarrow> 'a \<Rightarrow> js_error + 's) \<Rightarrow> 'a list \<Rightarrow> 's \<Rightarrow> js_error + 's" where
  \<comment> \<open>A loop over an array whose body changes the state or throws.\<close>
  "fold_err f [] s = Inr s"
| "fold_err f (x # xs) s = (case f s x of Inl e \<Rightarrow> Inl e | Inr s' \<Rightarrow> fold_err f xs s')"

definition mergeNotificationSettings :: "NotificationSettingsObject list \<Rightarrow> js_error + json" where
  "mergeNotificationSettings objects =
     fold_err (\<lambda>output settingsByType.
       fold_err (\<lambda>output (type, settingsByScopeType).
         fold_err (\<lambda>output (scopeType, settingsByScopeId).
           fold_err (\<lambda>output (scopeId, settingsByProvider).
                       lodash_set output (join_dot [type, scopeType, scopeId])
                         settingsByProvider)
             settingsByScopeId output)
           settingsByScopeType output)
         settingsByType output)
       objects (JObj [])"

fun json_at :: "json \<Rightarrow> string list \<Rightarrow> json option" where
  \<comment> \<open>The value at a path of keys, \<^verbatim>\<open>o[k1][k2]...\<close>, read through own enumerable
      properties; \<open>None\<close> where a step is missing.\<close>
  "json_at v [] = Some v"
| "json_at v (key # rest) =
     (case map_of (props v) key of
        None \<Rightarrow> None
      | Some child \<Rightarrow> json_at child rest)"

definition merged_at :: "js_error + json \<Rightarrow> string list \<Rightarrow> json option" where
  \<comment> \<open>The value at a path of the tree a merge returned; \<open>None\<close> also when it threw.\<close>
  "merged_at result path = (case result of Inl e \<Rightarrow> None | Inr output \<Rightarrow> json_at output path)"

definition leaf_at :: "'v obj obj obj \<Rightarrow> string \<Rightarrow> string \<Rightarrow> string \<Rightarrow> 'v option" where
  \<comment> \<open>The provider mapping a tree has at \<open>(type, scopeType, scopeId)\<close>:
      \<^verbatim>\<open>tree[type][scopeType][scopeId]\<close>, \<open>None\<close> where a step is missing.\<close>
  "leaf_at tree type scopeType scopeId =
     (case map_of tree type of
        None \<Rightarrow> None
      | Some settingsByScopeType \<Rightarrow>
          (case map_of settingsByScopeType scopeType of
             None \<Rightarrow> None
           | Some settingsByScopeId \<Rightarrow> map_of settingsByScopeId scopeId))"

definition level_at :: "'v obj obj obj obj \<Rightarrow> string \<Rightarrow> string \<Rightarrow> string \<Rightarrow> string \<Rightarrow> 'v option" where
  \<comment> \<open>\<^verbatim>\<open>tree[type][scopeType][scopeId][provider]\<close>\<close>
  "level_at tree type scopeType scopeId provider =
     (case leaf_at tree type scopeType scopeId of
        None \<Rightarrow> None
      | Some settingsByProvider \<Rightarrow> map_of settingsByProvider provider)"

text \<open>
  The keys on which the merge is stated. A plain key is read by lodash as one
  step of a path, is stored (none of lodash's three unsafe keys), and is neither inherited
  by an object nor the \<^verbatim>\<open>length\<close> of an array. The scope types are those of the data
  model.
\<close>

definition plain_key :: "string \<Rightarrow> bool" where
  "plain_key key =
     (CHR ''.'' \<notin> set key \<and> CHR ''['' \<notin> set key \<and> CHR '']'' \<notin> set key \<and>
      key \<notin> set object_prototype_names \<and> key \<noteq> ''prototype'' \<and> key \<noteq> ''length'')"

definition is_scope_type :: "string \<Rightarrow> bool" where
  "is_scope_type scopeType = (scopeType \<in> set [''user'', ''project'', ''organization''])"

definition wf_settings :: "NotificationSettingsObject \<Rightarrow> bool" where
  \<comment> \<open>Every object of the tree has each key once, as a JavaScript object does.\<close>
  "wf_settings tree =
     (distinct (map fst tree) \<and>
      list_all (\<lambda>(type, byScopeType).
        distinct (map fst byScopeType) \<and>
        list_all (\<lambda>(scopeType, byScopeId). distinct (map fst byScopeId)) byScopeType) tree)"

definition plain_settings :: "NotificationSettingsObject \<Rightarrow> bool" where
  \<comment> \<open>The types and scope ids of the tree are plain keys, its scope types are scope
      types of the data model.\<close>
  "plain_settings tree =
     list_all (\<lambda>(type, byScopeType).
       plain_key type \<and>
       list_all (\<lambda>(scopeType, byScopeId).
         is_scope_type scopeType \<and> list_all (\<lambda>(scopeId, _). plain_key scopeId) byScopeId)
         byScopeType) tree"

text \<open>
  The leaves of a tree with their paths, in the order in which
  \<open>mergeNotificationSettings\<close> visits them, and the write it does for one of them.
\<close>

definition entries_of :: "NotificationSettingsObject \<Rightarrow> ((string \<times> string \<times> string) \<times> providers) list" where
  "entries_of tree =
     concat (map (\<lambda>(type, settingsByScopeType).
       concat (map (\<lambda>(scopeType, settingsByScopeId).
         map (\<lambda>(scopeId, settingsByProvider). ((type, scopeType, scopeId), settingsByProvider))
           settingsByScopeId) settingsByScopeType)) tree)"

definition merge_step :: "json \<Rightarrow> (string \<times> string \<times> string) \<times> providers \<Rightarrow> js_error + json" where
  "merge_step output e =
     (case e of ((type, scopeType, scopeId), settingsByProvider) \<Rightarrow>
        lodash_set output (join_dot [type, scopeType, scopeId]) settingsByProvider)"

definition plain_path :: "string \<times> string \<times> string \<Rightarrow> bool" where
  "plain_path p = (case p of (type, scopeType, scopeId) \<Rightarrow>
     plain_key type \<and> is_scope_type scopeType \<and> plain_key scopeId)"

definition dotfree_keys :: "json \<Rightarrow> bool" where
  "dotfree_keys object = list_all (\<lambda>key. CHR ''.'' \<notin> set key) (map fst (props object))"

section \<open>Reading the user's settings\<close>

definition scope_or_empty :: "string \<Rightarrow> string \<Rightarrow> NotificationSettingsObject \<Rightarrow> providers obj" where
  \<comment> \<open>\<^verbatim>\<open>notificationSettings[notificationType]?.[scopeType] || {}\<close>\<close>
  "scope_or_empty notificationType scopeType notificationSettings =
     (case map_of notificationSettings notificationType of
        None \<Rightarrow> []
      | Some byScopeType \<Rightarrow>
          (case map_of byScopeType scopeType of None \<Rightarrow> [] | Some byScopeId \<Rightarrow> byScopeId))"

definition getUserDefaultValues :: "string \<Rightarrow> NotificationSettingsObject \<Rightarrow> providers" where
  "getUserDefaultValues notificationType notificationSettings =
     (case array_pop (map snd (scope_or_empty notificationType ''user'' notificationSettings)) of
        Some settingsByProvider \<Rightarrow> settingsByProvider
      | None \<Rightarrow>
          fromEntries
            (map (\<lambda>(provider, v).
                    (provider, if v = ''default'' then getFallBackValue notificationType else v))
               ALL_PROVIDERS))"

definition getCurrentProviders :: "string \<Rightarrow> NotificationSettingsObject \<Rightarrow> string list" where
  "getCurrentProviders notificationType notificationSettings =
     (let userData = getUserDefaultValues notificationType notificationSettings
      in map (\<lambda>(provider, _). provider)
           (filter (\<lambda>(_, v). \<not> (v \<in> set [''never''])) userData))"

section \<open>The default decision\<close>

text \<open>
  \<^verbatim>\<open>Array.prototype.sort\<close> is stable, and with a consistent comparator its result is
  determined: the stable sort by the comparator. A comparator result \<^verbatim>\<open>NaN\<close> (here: a
  level that is not in \<open>mapping\<close>) is read as \<open>+0\<close>; the comparator is then not
  consistent and the language leaves the order to the implementation. The model is an
  insertion sort, so it fixes one such order; statements about levels outside
  \<open>mapping\<close> are not made below.
\<close>

definition mapping :: "string \<Rightarrow> int option" where
  "mapping level =
     (if level = ''default'' then Some 0
      else if level = ''never'' then Some 10
      else if level = ''always'' then Some 20
      else if level = ''subscribe_only'' then Some 30
      else if level = ''committed_only'' then Some 40
      else None)"

definition compare :: "string \<Rightarrow> string \<Rightarrow> int option" where
  \<comment> \<open>\<^verbatim>\<open>mapping[a] - mapping[b]\<close>; \<open>None\<close> is \<^verbatim>\<open>NaN\<close>.\<close>
  "compare a b =
     (case mapping a of
        None \<Rightarrow> None
      | Some x \<Rightarrow> (case mapping b of None \<Rightarrow> None | Some y \<Rightarrow> Some (x - y)))"

definition is_positive :: "int option \<Rightarrow> bool" where
  "is_positive v = (case v of None \<Rightarrow> False | Some d \<Rightarrow> 0 < d)"

fun sort_insert :: "('a \<Rightarrow> 'a \<Rightarrow> int option) \<Rightarrow> 'a \<Rightarrow> 'a list \<Rightarrow> 'a list" where
  "sort_insert cmp x [] = [x]"
| "sort_insert cmp x (y # ys) =
     (if is_positive (cmp x y) then y # sort_insert cmp x ys else x # y # ys)"

definition array_sort :: "('a \<Rightarrow> 'a \<Rightarrow> int option) \<Rightarrow> 'a list \<Rightarrow> 'a list" where
  "array_sort cmp xs = foldr (sort_insert cmp) xs []"

definition parentIndependentSetting :: "string \<Rightarrow> NotificationSettingsObject \<Rightarrow> string" where
  "parentIndependentSetting notificationType notificationSettings =
     or_string
       (array_pop (array_sort compare
          (map snd (getUserDefaultValues notificationType notificationSettings))))
       ''never''"

definition parent_values :: "string \<Rightarrow> NotificationSettingsObject \<Rightarrow> string list" where
  \<comment> \<open>The levels of every provider mapping under the type's grouping scope.\<close>
  "parent_values notificationType notificationSettings =
     concat (map (\<lambda>settingsByProvider. map snd settingsByProvider)
       (map snd
          (scope_or_empty notificationType (getParentKey notificationType)
             notificationSettings)))"

definition parentSpecificSetting :: "string \<Rightarrow> NotificationSettingsObject \<Rightarrow> string" where
  "parentSpecificSetting notificationType notificationSettings =
     or_string
       (array_pop (array_sort compare (parent_values notificationType notificationSettings)))
       ''default''"

definition decideDefault :: "string \<Rightarrow> NotificationSettingsObject \<Rightarrow> string" where
  "decideDefault notificationType notificationSettings =
     (if parentIndependentSetting notificationType notificationSettings \<noteq> ''never''
      then parentIndependentSetting notificationType notificationSettings
      else if parentSpecificSetting notificationType notificationSettings = ''default''
      then ''never''
      else parentSpecificSetting notificationType notificationSettings)"

text \<open>
  The order of the levels as the specification gives it,
  \<^verbatim>\<open>default < never < always < subscribe_only < committed_only\<close>, and the maximum of a
  sequence of levels in that order, written as a fold. They are what \<open>decideDefault\<close> is
  compared with; the code itself sorts by \<open>mapping\<close>.
\<close>

definition level_order :: "string list" where
  "level_order = [''default'', ''never'', ''always'', ''subscribe_only'', ''committed_only'']"

definition is_level :: "string \<Rightarrow> bool" where
  "is_level v = (v \<in> set level_order)"

fun position :: "'a \<Rightarrow> 'a list \<Rightarrow> nat" where
  "position x [] = 0"
| "position x (y # ys) = (if x = y then 0 else Suc (position x ys))"

definition level_rank :: "string \<Rightarrow> nat" where
  "level_rank v = position v level_order"

definition higher :: "string \<Rightarrow> string \<Rightarrow> string" where
  "higher a b = (if level_rank a < level_rank b then b else a)"

fun max_level :: "string list \<Rightarrow> string option" where
  "max_level [] = None"
| "max_level (v # vs) = Some (foldl higher v vs)"

definition isEverythingDisabled :: "string \<Rightarrow> NotificationSettingsObject \<Rightarrow> bool" where
  "isEverythingDisabled notificationType notificationSettings =
     (decideDefault notificationType notificationSettings \<in> set [''never'', ''default''])"

definition getParentIds :: "string \<Rightarrow> NotificationSettingsObject \<Rightarrow> string list" where
  "getParentIds notificationType notificationSettings =
     map fst
       (scope_or_empty notificationType (getParentKey notificationType) notificationSettings)"

section \<open>The patches sent back\<close>

definition getStateToPutForProvider ::
  "string \<Rightarrow> NotificationSettingsObject \<Rightarrow> string obj \<Rightarrow> js_error + NotificationSettingsObject" where
  \<comment> \<open>\<^verbatim>\<open>undefined.split\<close> and \<^verbatim>\<open>Object.entries(undefined)\<close> throw a TypeError. An
      inherited value (a function, or \<^verbatim>\<open>Object.prototype\<close>) has no entries.\<close>
  "getStateToPutForProvider notificationType notificationSettings changedData =
     (case map_of changedData ''provider'' of
        None \<Rightarrow> Inl TypeError
      | Some provider \<Rightarrow>
          (let providerList = split_on CHR ''+'' provider;
               fallbackValue = getFallBackValue notificationType
           in if length (map fst notificationSettings) \<noteq> 0
              then (case map_of notificationSettings notificationType of
                      None \<Rightarrow>
                        if notificationType \<in> set object_prototype_names
                        then Inr [(notificationType, [])]
                        else Inl TypeError
                    | Some byScopeType \<Rightarrow>
                        Inr [(notificationType,
                              fromEntries
                                (map (\<lambda>(scopeType, scopeTypeData).
                                        (scopeType,
                                         fromEntries
                                           (map (\<lambda>(scopeId, scopeIdData).
                                                   (scopeId,
                                                    backfillMissingProvidersWithFallback
                                                      scopeIdData providerList fallbackValue
                                                      scopeType))
                                              scopeTypeData)))
                                   byScopeType))])
              else Inr [(notificationType,
                         [(''user'',
                           [(''me'',
                             fromEntries
                               (map (\<lambda>provider. (provider, fallbackValue)) providerList))])])]))"

text \<open>
  \<^verbatim>\<open>Object.values(changedData)[0]\<close> is \<^verbatim>\<open>undefined\<close> for an empty \<^verbatim>\<open>changedData\<close>, so
  the levels the next two builders write are a string or \<^verbatim>\<open>undefined\<close> (\<open>None\<close>).
\<close>

definition first_value :: "string obj \<Rightarrow> string option" where
  "first_value changedData = (case map snd changedData of [] \<Rightarrow> None | v # _ \<Rightarrow> Some v)"

definition getStateToPutForDefault ::
  "string \<Rightarrow> NotificationSettingsObject \<Rightarrow> string obj \<Rightarrow> string list
     \<Rightarrow> string option obj obj obj obj" where
  "getStateToPutForDefault notificationType notificationSettings changedData parentIds =
     (let newValue = first_value changedData;
          providerList = getCurrentProviders notificationType notificationSettings;
          providerList = (if length providerList = 0 then [''email''] else providerList);
          byScopeType =
            [(''user'',
              [(''me'', fromEntries (map (\<lambda>provider. (provider, newValue)) providerList))])]
      in if newValue = Some ''never''
         then [(notificationType,
                obj_set (getParentKey notificationType)
                  (fromEntries
                     (map (\<lambda>parentId.
                             (parentId,
                              fromEntries
                                (map (\<lambda>provider. (provider, Some ''default'')) providerList)))
                        parentIds))
                  byScopeType)]
         else [(notificationType, byScopeType)])"

definition getStateToPutForParent ::
  "string \<Rightarrow> NotificationSettingsObject \<Rightarrow> string obj \<Rightarrow> string
     \<Rightarrow> string option obj obj obj obj" where
  "getStateToPutForParent notificationType notificationSettings changedData parentId =
     (let providerList = getCurrentProviders notificationType notificationSettings;
          newValue = first_value changedData
      in [(notificationType,
           [(getParentKey notificationType,
             [(parentId, fromEntries (map (\<lambda>provider. (provider, newValue)) providerList))])])])"

section \<open>Properties of the object operations\<close>

lemma keys_obj_replace: "map fst (obj_replace k v xs) = map fst xs"
  by (induction xs) auto

lemma map_of_obj_replace: "map_of (obj_replace k v xs) k' = (if k' = k \<and> k \<in> set (map fst xs) then Some v else map_of xs k')"
  by (induction xs) (auto simp: rev_image_eqI)

lemma set_keys_obj_create: "set (map fst (obj_create k v xs)) = insert k (set (map fst xs))"
proof (induction xs)
  case Nil
  show ?case by simp
next
  case (Cons a xs)
  obtain k' v' where a: "a = (k', v')" by (cases a)
  show ?case
    using Cons.IH
    by (cases "array_index k"; cases "array_index k'") (simp_all add: a insert_commute)
qed

lemma map_of_obj_create: "k \<notin> set (map fst xs) \<Longrightarrow> map_of (obj_create k v xs) k' = (if k' = k then Some v else map_of xs k')"
  by (induction xs) (auto split: option.splits)

lemma map_of_obj_set: "map_of (obj_set k v xs) k' = (if k' = k then Some v else map_of xs k')"
  by (simp add: obj_set_def map_of_obj_replace map_of_obj_create)

lemma set_keys_obj_set: "set (map fst (obj_set k v xs)) = insert k (set (map fst xs))"
  by (auto simp del: set_map simp: obj_set_def keys_obj_replace set_keys_obj_create)

lemma map_of_foldl_obj_set:
  "map_of (foldl (\<lambda>acc (k, v). obj_set k v acc) acc es) k' =
     (case map_of (rev es) k' of Some v \<Rightarrow> Some v | None \<Rightarrow> map_of acc k')"
  by (induction es arbitrary: acc) (auto simp: map_of_obj_set split: option.splits)

lemma map_of_fromEntries: "map_of (fromEntries es) k = map_of (rev es) k"
  by (simp add: fromEntries_def map_of_foldl_obj_set split: option.splits)

lemma set_keys_foldl_obj_set:
  "set (map fst (foldl (\<lambda>acc (k, v). obj_set k v acc) acc es)) = set (map fst acc) \<union> set (map fst es)"
  by (induction es arbitrary: acc) (auto simp del: set_map simp: set_keys_obj_set)

lemma set_keys_fromEntries: "set (map fst (fromEntries es)) = set (map fst es)"
  by (simp del: set_map add: fromEntries_def set_keys_foldl_obj_set)

lemma map_of_fromEntries_const:
  "map_of (fromEntries (map (\<lambda>p. (p, v)) ps)) p = (if p \<in> set ps then Some v else None)"
proof -
  have "map_of (map (\<lambda>p. (p, v)) qs) p = (if p \<in> set qs then Some v else None)" for qs
    by (induction qs) auto
  from this [of "rev ps"] show ?thesis
    by (simp add: map_of_fromEntries rev_map)
qed

lemma array_index_email: "array_index ''email'' = None" and array_index_slack: "array_index ''slack'' = None"
  by (simp_all add: array_index_def is_digit_def)

lemma array_index_10: "array_index ''10'' = Some 10" and array_index_20: "array_index ''20'' = Some 20"
  by (simp_all add: array_index_def is_digit_def digit_val_def)

lemma fromEntries_email_slack:
  "fromEntries [(''email'', a), (''slack'', b)] = [(''email'', a), (''slack'', b)]"
  by (simp add: fromEntries_def obj_set_def array_index_email array_index_slack)

section \<open>Properties of the backfill\<close>

text \<open>
  Claim C5. Whatever the partial mapping, the provider list, the fallback value and the
  scope type are, the mapping returned by \<open>backfillMissingProvidersWithFallback\<close> has
  exactly the known providers as its keys (\<^verbatim>\<open>email\<close> and \<^verbatim>\<open>slack\<close>, the keys of
  \<open>ALL_PROVIDERS\<close>); a known provider that is in the provider list is given the effective
  fallback, and any other known provider is given \<^verbatim>\<open>never\<close> when the scope type is \<^verbatim>\<open>user\<close> and
  \<^verbatim>\<open>default\<close> otherwise.
\<close>

theorem backfill_all_providers:
  "map fst (backfillMissingProvidersWithFallback data providerList fallbackValue scopeType)
     = map fst ALL_PROVIDERS \<and>
   (\<forall>provider \<in> set (map fst ALL_PROVIDERS).
      map_of (backfillMissingProvidersWithFallback data providerList fallbackValue scopeType) provider
        = Some (if provider \<in> set providerList then effective_fallback data fallbackValue
                else if scopeType = ''user'' then ''never'' else ''default''))"
  by (simp add: backfillMissingProvidersWithFallback_def ALL_PROVIDERS_def fromEntries_email_slack Let_def)

theorem backfill_all_providers_witness:
  "map fst (backfillMissingProvidersWithFallback [(''email'', ''always''), (''slack'', ''never'')]
       [''slack''] ''subscribe_only'' ''user'') = [''email'', ''slack''] \<and>
   map_of (backfillMissingProvidersWithFallback [(''email'', ''always''), (''slack'', ''never'')]
       [''slack''] ''subscribe_only'' ''user'') ''email'' = Some ''never'' \<and>
   map_of (backfillMissingProvidersWithFallback [(''email'', ''always''), (''slack'', ''never'')]
       [''slack''] ''subscribe_only'' ''user'') ''slack'' = Some ''always''"
  using backfill_all_providers [of "[(''email'', ''always''), (''slack'', ''never'')]"
      "[''slack'']" "''subscribe_only''" "''user''"]
  by (simp add: ALL_PROVIDERS_def effective_fallback_def)

lemma foldl_last_non_never:
  "foldl (\<lambda>previousValue currentValue.
              if currentValue = ''never'' then previousValue else currentValue) fb vs
   = (if filter (\<lambda>v. v \<noteq> ''never'') vs = [] then fb else last (filter (\<lambda>v. v \<noteq> ''never'') vs))"
  by (induction vs arbitrary: fb) auto

text \<open>
  Claim C6. The effective fallback of the backfill is the last value of the partial mapping
  that is not \<^verbatim>\<open>never\<close>, in the left-to-right order of its values, and it overrides the
  fallback value passed in; when every value is \<^verbatim>\<open>never\<close>, or the mapping is empty, it
  is the fallback value passed in. For the partial mapping
  \<^verbatim>\<open>{email: "always", slack: "never"}\<close> it is \<^verbatim>\<open>always\<close>, whatever fallback is passed.
\<close>

theorem effective_fallback_last_non_never:
  "effective_fallback data fallbackValue =
     (if filter (\<lambda>v. v \<noteq> ''never'') (map snd data) = [] then fallbackValue
      else last (filter (\<lambda>v. v \<noteq> ''never'') (map snd data))) \<and>
   effective_fallback [(''email'', ''always''), (''slack'', ''never'')] fallbackValue = ''always''"
  by (simp add: effective_fallback_def foldl_last_non_never)

section \<open>Properties of the user's settings\<close>

lemma getFallBackValue_not_never: "getFallBackValue t \<noteq> ''never''"
  by (simp add: getFallBackValue_def)

lemma synthesized_defaults:
  "fromEntries (map (\<lambda>(provider, v). (provider, if v = ''default'' then getFallBackValue t else v)) ALL_PROVIDERS)
     = [(''email'', getFallBackValue t), (''slack'', ''never'')]"
  by (simp add: ALL_PROVIDERS_def fromEntries_email_slack)

lemma getUserDefaultValues_no_user:
  "scope_or_empty t ''user'' tree = [] \<Longrightarrow>
     getUserDefaultValues t tree = [(''email'', getFallBackValue t), (''slack'', ''never'')]"
  by (simp add: getUserDefaultValues_def array_pop_def synthesized_defaults)

lemma getUserDefaultValues_user:
  "scope_or_empty t ''user'' tree \<noteq> [] \<Longrightarrow>
     getUserDefaultValues t tree = snd (last (scope_or_empty t ''user'' tree))"
  by (simp add: getUserDefaultValues_def array_pop_def last_map)

lemma getCurrentProviders_synthesized:
  "getUserDefaultValues t tree = [(''email'', getFallBackValue t), (''slack'', ''never'')] \<Longrightarrow>
     getCurrentProviders t tree = [''email'']"
  by (simp add: getCurrentProviders_def getFallBackValue_not_never)

text \<open>
  The empty tree has no user-scope data for \<^verbatim>\<open>alerts\<close>, and the current providers are
  not the empty sequence.
\<close>

theorem getCurrentProviders_no_user_counterexample:
  "scope_or_empty ''alerts'' ''user'' [] = [] \<and> getCurrentProviders ''alerts'' [] \<noteq> []"
  by (simp add: getCurrentProviders_def getUserDefaultValues_no_user scope_or_empty_def
      getFallBackValue_def)

text \<open>
  Claim C2, as the code has it. For every notification type and every settings tree with no
  user-scope data under that type (\<^verbatim>\<open>tree[type]["user"]\<close> absent or empty),
  \<open>getCurrentProviders\<close> returns the one-element sequence \<^verbatim>\<open>["email"]\<close>: the providers
  of the synthesized defaults whose level is not \<^verbatim>\<open>never\<close>.
\<close>

theorem getCurrentProviders_no_user:
  "scope_or_empty t ''user'' tree = [] \<Longrightarrow> getCurrentProviders t tree = [''email'']"
  by (rule getCurrentProviders_synthesized) (rule getUserDefaultValues_no_user)

theorem getCurrentProviders_no_user_witness:
  "scope_or_empty ''workflow'' ''user'' [(''workflow'', [(''project'', [(''1'', [(''email'', ''never'')])])])] = [] \<and>
   getCurrentProviders ''workflow'' [(''workflow'', [(''project'', [(''1'', [(''email'', ''never'')])])])] = [''email'']"
proof -
  have h: "scope_or_empty ''workflow'' ''user'' [(''workflow'', [(''project'', [(''1'', [(''email'', ''never'')])])])] = []"
    by (simp add: scope_or_empty_def)
  from h getCurrentProviders_no_user [OF h] show ?thesis by simp
qed

section \<open>Properties of the default decision\<close>

lemma decideDefault_deploy_empty: "decideDefault ''deploy'' [] = ''committed_only''"
  by (simp add: decideDefault_def parentIndependentSetting_def getUserDefaultValues_no_user
      scope_or_empty_def getFallBackValue_def array_sort_def compare_def mapping_def
      is_positive_def array_pop_def or_string_def)

text \<open>
  With no settings at all, \<open>getUserDefaultValues\<close> synthesizes the defaults, in which
  \<^verbatim>\<open>email\<close> has the fallback value of the type. For \<^verbatim>\<open>deploy\<close> that is
  \<^verbatim>\<open>committed_only\<close>, the highest level, so the first stage of \<open>decideDefault\<close>
  returns it and not everything is disabled.
\<close>

theorem isEverythingDisabled_deploy_empty_counterexample:
  "\<not> isEverythingDisabled ''deploy'' []"
  by (simp add: isEverythingDisabled_def decideDefault_deploy_empty)

text \<open>
  Claim C1, as the code has it. \<open>isEverythingDisabled\<close> holds exactly when
  \<open>decideDefault\<close> returns \<^verbatim>\<open>never\<close> or \<^verbatim>\<open>default\<close>. For the type \<^verbatim>\<open>deploy\<close> and
  the empty settings tree \<open>decideDefault\<close> returns \<^verbatim>\<open>committed_only\<close>, and
  \<open>isEverythingDisabled\<close> returns false.
\<close>

theorem isEverythingDisabled_deploy_empty:
  "isEverythingDisabled t tree = (decideDefault t tree = ''never'' \<or> decideDefault t tree = ''default'') \<and>
   decideDefault ''deploy'' [] = ''committed_only'' \<and>
   isEverythingDisabled ''deploy'' [] = False"
  by (simp add: isEverythingDisabled_def decideDefault_deploy_empty)

text \<open>
  Claim C9. When the tree has a user-scope entry for the type and the provider mapping
  \<open>getUserDefaultValues\<close> takes from it (the last one) is empty, as in
  \<^verbatim>\<open>tree[type].user = {"me": {}}\<close>, no defaults are synthesized: the parent-independent
  setting is \<^verbatim>\<open>never\<close> and \<open>decideDefault\<close> returns what its second stage gives, the
  parent-specific maximum with \<^verbatim>\<open>default\<close> turned into \<^verbatim>\<open>never\<close>.
\<close>

theorem decideDefault_empty_user_mapping:
  assumes "scope_or_empty t ''user'' tree \<noteq> []"
      and "snd (last (scope_or_empty t ''user'' tree)) = []"
  shows "getUserDefaultValues t tree = [] \<and>
         parentIndependentSetting t tree = ''never'' \<and>
         decideDefault t tree =
           (if parentSpecificSetting t tree = ''default'' then ''never''
            else parentSpecificSetting t tree)"
  using assms
  by (simp add: getUserDefaultValues_user decideDefault_def parentIndependentSetting_def
      array_sort_def array_pop_def or_string_def)

theorem decideDefault_empty_user_mapping_witness:
  "getUserDefaultValues ''deploy''
     [(''deploy'', [(''user'', [(''me'', [])]), (''organization'', [(''1'', [(''email'', ''always'')])])])] = [] \<and>
   decideDefault ''deploy''
     [(''deploy'', [(''user'', [(''me'', [])]), (''organization'', [(''1'', [(''email'', ''always'')])])])] = ''always''"
proof -
  let ?tree = "[(''deploy'', [(''user'', [(''me'', [])]), (''organization'', [(''1'', [(''email'', ''always'')])])])]"
  have u: "scope_or_empty ''deploy'' ''user'' ?tree = [(''me'', [])]"
    by (simp add: scope_or_empty_def)
  have p: "parentSpecificSetting ''deploy'' ?tree = ''always''"
    by (simp add: parentSpecificSetting_def parent_values_def scope_or_empty_def getParentKey_def
        isGroupedByProject_def array_sort_def array_pop_def or_string_def)
  from decideDefault_empty_user_mapping [of "''deploy''" ?tree] u p show ?thesis by simp
qed

subsection \<open>Sorting by \<open>compare\<close> and the maximum level\<close>

lemma is_level_cases:
  "is_level v \<longleftrightarrow> v = ''default'' \<or> v = ''never'' \<or> v = ''always'' \<or> v = ''subscribe_only'' \<or> v = ''committed_only''"
  by (auto simp: is_level_def level_order_def)

lemma mapping_level_rank: "is_level v \<Longrightarrow> mapping v = Some (10 * int (level_rank v))"
  unfolding is_level_cases
  by (elim disjE) (simp_all add: mapping_def level_rank_def level_order_def)

lemma level_rank_inj: "is_level a \<Longrightarrow> is_level b \<Longrightarrow> level_rank a = level_rank b \<Longrightarrow> a = b"
  unfolding is_level_cases
  by (elim disjE) (simp_all add: level_rank_def level_order_def)

lemma is_level_not_empty: "is_level v \<Longrightarrow> v \<noteq> []"
  unfolding is_level_cases by auto

lemma compare_positive:
  "is_level a \<Longrightarrow> is_level b \<Longrightarrow> is_positive (compare a b) = (level_rank b < level_rank a)"
  by (simp add: compare_def mapping_level_rank is_positive_def)

lemma set_sort_insert: "set (sort_insert cmp x ys) = insert x (set ys)"
  by (induction ys) auto

lemma set_array_sort: "set (array_sort cmp xs) = set xs"
  unfolding array_sort_def by (induction xs) (simp_all add: set_sort_insert)

lemma array_sort_Nil_iff: "array_sort cmp xs = [] \<longleftrightarrow> xs = []"
  using set_array_sort [of cmp xs] by (metis set_empty)

lemma sorted_sort_insert:
  assumes "is_level x" "list_all is_level ys"
      and "sorted_wrt (\<lambda>a b. level_rank a \<le> level_rank b) ys"
  shows "sorted_wrt (\<lambda>a b. level_rank a \<le> level_rank b) (sort_insert compare x ys)"
  using assms
proof (induction ys)
  case Nil
  show ?case by simp
next
  case (Cons y ys)
  show ?case
  proof (cases "level_rank y < level_rank x")
    case True
    with Cons show ?thesis
      by (auto simp: compare_positive set_sort_insert)
  next
    case False
    with Cons show ?thesis
      by (auto simp: compare_positive)
  qed
qed

lemma sorted_array_sort:
  "list_all is_level xs \<Longrightarrow>
     sorted_wrt (\<lambda>a b. level_rank a \<le> level_rank b) (array_sort compare xs)"
proof (induction xs)
  case Nil
  show ?case by (simp add: array_sort_def)
next
  case (Cons x xs)
  then have "list_all is_level (array_sort compare xs)"
    by (simp add: list_all_iff set_array_sort)
  with Cons show ?case
    using sorted_sort_insert [of x "array_sort compare xs"] by (simp add: array_sort_def)
qed

lemma sorted_wrt_last_greatest:
  "sorted_wrt (\<lambda>a b. f a \<le> (f b :: nat)) zs \<Longrightarrow> z \<in> set zs \<Longrightarrow> f z \<le> f (last zs)"
  by (induction zs) auto

lemma foldl_higher_mem: "foldl higher v vs \<in> set (v # vs)"
  by (induction vs arbitrary: v) (auto simp: higher_def)

lemma foldl_higher_ge_start: "level_rank v \<le> level_rank (foldl higher v vs)"
proof (induction vs arbitrary: v)
  case Nil
  show ?case by simp
next
  case (Cons w vs)
  have "level_rank v \<le> level_rank (higher v w)" by (simp add: higher_def)
  also have "\<dots> \<le> level_rank (foldl higher (higher v w) vs)" by (rule Cons.IH)
  finally show ?case by simp
qed

lemma foldl_higher_greatest: "x \<in> set (v # vs) \<Longrightarrow> level_rank x \<le> level_rank (foldl higher v vs)"
proof (induction vs arbitrary: v)
  case Nil
  then show ?case by simp
next
  case (Cons w vs)
  have hw: "level_rank w \<le> level_rank (higher v w)" by (simp add: higher_def)
  from Cons.prems consider "x = v" | "x = w" | "x \<in> set vs"
    by auto
  then show ?case
  proof cases
    case 1
    then show ?thesis using foldl_higher_ge_start [of v "w # vs"] by simp
  next
    case 2
    then show ?thesis using hw foldl_higher_ge_start [of "higher v w" vs] by simp
  next
    case 3
    then show ?thesis using Cons.IH [of "higher v w"] by simp
  qed
qed

text \<open>\<open>max_level\<close> is the maximum in the order of the levels.\<close>

lemma max_level_greatest:
  "max_level vs = Some m \<Longrightarrow> m \<in> set vs \<and> (\<forall>v \<in> set vs. level_rank v \<le> level_rank m)"
  by (cases vs) (use foldl_higher_mem foldl_higher_greatest in auto)

text \<open>
  On levels the comparator is consistent, so sorting by it and taking the last element
  gives the maximum.
\<close>

lemma pop_sort_max_level:
  assumes "list_all is_level vs"
  shows "array_pop (array_sort compare vs) = max_level vs"
proof (cases vs)
  case Nil
  then show ?thesis by (simp add: array_pop_def array_sort_def)
next
  case (Cons v ws)
  let ?s = "array_sort compare vs"
  let ?m = "foldl higher v ws"
  have ne: "?s \<noteq> []" using Cons by (simp add: array_sort_Nil_iff)
  then have l_in: "last ?s \<in> set vs" using last_in_set [of ?s] by (simp add: set_array_sort)
  have m_in: "?m \<in> set vs" using foldl_higher_mem [of v ws] Cons by simp
  have "level_rank ?m \<le> level_rank (last ?s)"
    using sorted_wrt_last_greatest [OF sorted_array_sort [OF assms], of ?m] m_in
    by (simp add: set_array_sort)
  moreover have "level_rank (last ?s) \<le> level_rank ?m"
    using foldl_higher_greatest [of "last ?s" v ws] l_in Cons by simp
  ultimately have "level_rank (last ?s) = level_rank ?m" by simp
  moreover have "is_level (last ?s)" "is_level ?m"
    using assms l_in m_in by (simp_all add: list_all_iff)
  ultimately have "last ?s = ?m" by (rule level_rank_inj [rotated 2])
  with ne Cons show ?thesis by (simp add: array_pop_def)
qed

lemma max_level_is_level: "list_all is_level vs \<Longrightarrow> max_level vs = Some m \<Longrightarrow> is_level m"
  using max_level_greatest [of vs m] by (simp add: list_all_iff)

lemma parentIndependentSetting_max:
  assumes "list_all is_level (map snd (getUserDefaultValues t tree))"
  shows "parentIndependentSetting t tree =
     (case max_level (map snd (getUserDefaultValues t tree)) of None \<Rightarrow> ''never'' | Some m \<Rightarrow> m)"
  using max_level_is_level [OF assms] is_level_not_empty
  by (auto simp add: parentIndependentSetting_def pop_sort_max_level [OF assms] or_string_def
      split: option.splits)

lemma parentSpecificSetting_max:
  assumes "list_all is_level (parent_values t tree)"
  shows "parentSpecificSetting t tree =
     (case max_level (parent_values t tree) of None \<Rightarrow> ''default'' | Some m \<Rightarrow> m)"
  using max_level_is_level [OF assms] is_level_not_empty
  by (auto simp add: parentSpecificSetting_def pop_sort_max_level [OF assms] or_string_def
      split: option.splits)

subsection \<open>The two stages\<close>

text \<open>
  Claim C4. \<open>decideDefault\<close> follows the two-stage precedence. It returns the maximum of
  the user-scope levels (the values of \<open>getUserDefaultValues\<close>), in the order
  \<^verbatim>\<open>default < never < always < subscribe_only < committed_only\<close>, whenever that maximum
  is not \<^verbatim>\<open>never\<close>. Otherwise it takes the maximum level of all provider mappings under
  the grouping scope of the type, \<^verbatim>\<open>default\<close> when there is none, and returns
  \<^verbatim>\<open>never\<close> if that is \<^verbatim>\<open>default\<close> and that maximum if not. (An empty user-scope
  mapping has no maximum; the second stage decides then, see claim C9.) The statement is
  about trees whose levels are among the five of the order.
\<close>

theorem decideDefault_two_stage:
  assumes "list_all is_level (map snd (getUserDefaultValues t tree))"
      and "list_all is_level (parent_values t tree)"
  shows "decideDefault t tree =
     (let parentSpecific = (case max_level (parent_values t tree) of
                              None \<Rightarrow> ''default''
                            | Some p \<Rightarrow> p);
          second = (if parentSpecific = ''default'' then ''never'' else parentSpecific)
      in case max_level (map snd (getUserDefaultValues t tree)) of
           None \<Rightarrow> second
         | Some parentIndependent \<Rightarrow>
             if parentIndependent \<noteq> ''never'' then parentIndependent else second)"
  by (simp add: decideDefault_def parentIndependentSetting_max [OF assms(1)]
      parentSpecificSetting_max [OF assms(2)] Let_def split: option.splits)

theorem decideDefault_two_stage_witness:
  "list_all is_level (map snd (getUserDefaultValues ''alerts''
     [(''alerts'', [(''user'', [(''me'', [(''email'', ''never'')])]),
                    (''project'', [(''1'', [(''email'', ''subscribe_only'')])])])])) \<and>
   list_all is_level (parent_values ''alerts''
     [(''alerts'', [(''user'', [(''me'', [(''email'', ''never'')])]),
                    (''project'', [(''1'', [(''email'', ''subscribe_only'')])])])]) \<and>
   decideDefault ''alerts''
     [(''alerts'', [(''user'', [(''me'', [(''email'', ''never'')])]),
                    (''project'', [(''1'', [(''email'', ''subscribe_only'')])])])] = ''subscribe_only''"
proof -
  let ?tree = "[(''alerts'', [(''user'', [(''me'', [(''email'', ''never'')])]),
                              (''project'', [(''1'', [(''email'', ''subscribe_only'')])])])]"
  have u: "map snd (getUserDefaultValues ''alerts'' ?tree) = [''never'']"
    by (simp add: getUserDefaultValues_def scope_or_empty_def array_pop_def)
  have p: "parent_values ''alerts'' ?tree = [''subscribe_only'']"
    by (simp add: parent_values_def scope_or_empty_def getParentKey_def isGroupedByProject_def)
  have hu: "list_all is_level (map snd (getUserDefaultValues ''alerts'' ?tree))"
    unfolding u by (simp add: is_level_cases)
  have hp: "list_all is_level (parent_values ''alerts'' ?tree)"
    unfolding p by (simp add: is_level_cases)
  from decideDefault_two_stage [OF hu hp] have "decideDefault ''alerts'' ?tree = ''subscribe_only''"
    unfolding u p by simp
  with hu hp show ?thesis by simp
qed

text \<open>The user's level wins over a parent's when it is not \<^verbatim>\<open>never\<close>.\<close>

lemma decideDefault_user_wins:
  "decideDefault ''alerts''
     [(''alerts'', [(''user'', [(''me'', [(''email'', ''always'')])]),
                    (''project'', [(''1'', [(''email'', ''never'')])])])] = ''always''"
  by (simp add: decideDefault_def parentIndependentSetting_def getUserDefaultValues_def
      scope_or_empty_def array_pop_def array_sort_def or_string_def)

section \<open>Properties of the patches\<close>

subsection \<open>A change of the providers\<close>

text \<open>
  Claim C3. For a tree with no entries for the type, \<open>getStateToPutForProvider\<close> is to
  return, without an error, the patch with the single user-scope entry \<^verbatim>\<open>me\<close>. The code
  tests whether the whole tree is empty, not whether the type is present: on the tree
  \<^verbatim>\<open>{deploy: {user: {me: {email: "always"}}}}\<close>, which has nothing for \<^verbatim>\<open>alerts\<close>, it
  reads \<^verbatim>\<open>Object.entries(undefined)\<close> and throws a TypeError.
\<close>

theorem getStateToPutForProvider_missing_type:
  "getStateToPutForProvider ''alerts''
     [(''deploy'', [(''user'', [(''me'', [(''email'', ''always'')])])])]
     [(''provider'', ''email'')] = Inl TypeError"
  by (simp add: getStateToPutForProvider_def object_prototype_names_def)

text \<open>
  On the empty tree the patch is as described; on any other tree without the type the
  TypeError is thrown, unless the type is a name every object inherits.
\<close>

lemma getStateToPutForProvider_no_settings:
  "getStateToPutForProvider t [] [(''provider'', p)] =
     Inr [(t, [(''user'', [(''me'', fromEntries (map (\<lambda>provider. (provider, getFallBackValue t)) (split_on CHR ''+'' p)))])])]"
  by (simp add: getStateToPutForProvider_def)

lemma getStateToPutForProvider_type_absent:
  "tree \<noteq> [] \<Longrightarrow> map_of tree t = None \<Longrightarrow> t \<notin> set object_prototype_names \<Longrightarrow>
     map_of changedData ''provider'' = Some p \<Longrightarrow>
     getStateToPutForProvider t tree changedData = Inl TypeError"
  by (simp add: getStateToPutForProvider_def)

lemma getStateToPutForProvider_type_inherited:
  "tree \<noteq> [] \<Longrightarrow> map_of tree t = None \<Longrightarrow> t \<in> set object_prototype_names \<Longrightarrow>
     map_of changedData ''provider'' = Some p \<Longrightarrow>
     getStateToPutForProvider t tree changedData = Inr [(t, [])]"
  by (simp add: getStateToPutForProvider_def)

subsection \<open>A change of the default\<close>

lemma getParentKey_not_user: "getParentKey t \<noteq> ''user''"
  by (simp add: getParentKey_def)

lemma getStateToPutForDefault_never_eq:
  assumes "first_value changedData = Some ''never''"
  shows "getStateToPutForDefault t tree changedData parentIds =
     [(t, [(''user'',
            [(''me'', fromEntries (map (\<lambda>provider. (provider, Some ''never''))
                (if getCurrentProviders t tree = [] then [''email''] else getCurrentProviders t tree)))]),
           (getParentKey t,
            fromEntries (map (\<lambda>parentId. (parentId,
               fromEntries (map (\<lambda>provider. (provider, Some ''default''))
                 (if getCurrentProviders t tree = [] then [''email''] else getCurrentProviders t tree))))
               parentIds))])]"
proof -
  have k: "array_index (getParentKey t) = None"
    by (simp add: getParentKey_def array_index_def is_digit_def)
  have "obj_set (getParentKey t) v [(''user'', u)] = [(''user'', u), (getParentKey t, v)]" for u v :: "string option obj obj"
    using getParentKey_not_user [of t] by (auto simp add: obj_set_def k)
  then show ?thesis
    using assms by (simp add: getStateToPutForDefault_def Let_def)
qed

text \<open>
  Claim C8. With the new level \<^verbatim>\<open>never\<close>, for every tree and every list of parent ids,
  the patch of \<open>getStateToPutForDefault\<close> has the type as its only key; at the user
  scope, under \<^verbatim>\<open>me\<close>, it sets every currently active provider (or \<^verbatim>\<open>email\<close> alone
  when none is active) to \<^verbatim>\<open>never\<close>; and under the grouping scope of the type it maps
  every given parent id to a mapping that sets each of these providers to \<^verbatim>\<open>default\<close>
  and holds nothing else. For \<^verbatim>\<open>alerts\<close> the grouping scope is \<^verbatim>\<open>project\<close>, so with
  the parent ids \<^verbatim>\<open>["10", "20"]\<close> the patch has \<^verbatim>\<open>project.10\<close> and \<^verbatim>\<open>project.20\<close>, all
  set to \<^verbatim>\<open>default\<close>.
\<close>

theorem getStateToPutForDefault_never:
  assumes "first_value changedData = Some ''never''"
  shows "let providerList = (if getCurrentProviders t tree = [] then [''email'']
                             else getCurrentProviders t tree);
             patch = getStateToPutForDefault t tree changedData parentIds
         in map fst patch = [t] \<and>
            (\<forall>provider.
               level_at patch t ''user'' ''me'' provider =
                 (if provider \<in> set providerList then Some (Some ''never'') else None)) \<and>
            (\<forall>parentId \<in> set parentIds. \<forall>provider.
               level_at patch t (getParentKey t) parentId provider =
                 (if provider \<in> set providerList then Some (Some ''default'') else None))"
proof -
  define pl where "pl = (if getCurrentProviders t tree = [] then [''email''] else getCurrentProviders t tree)"
  define patch where "patch = getStateToPutForDefault t tree changedData parentIds"
  have eq: "patch =
     [(t, [(''user'', [(''me'', fromEntries (map (\<lambda>provider. (provider, Some ''never'')) pl))]),
           (getParentKey t,
            fromEntries (map (\<lambda>parentId. (parentId,
               fromEntries (map (\<lambda>provider. (provider, Some ''default'')) pl))) parentIds))])]"
    unfolding patch_def pl_def by (rule getStateToPutForDefault_never_eq [OF assms])
  have keys: "map fst patch = [t]"
    by (simp add: eq)
  have user: "level_at patch t ''user'' ''me'' provider =
      (if provider \<in> set pl then Some (Some ''never'') else None)" for provider
    by (simp add: eq level_at_def leaf_at_def map_of_fromEntries_const)
  have parent: "level_at patch t (getParentKey t) parentId provider =
      (if provider \<in> set pl then Some (Some ''default'') else None)"
    if "parentId \<in> set parentIds" for parentId provider
    using that getParentKey_not_user [of t]
    by (simp add: eq level_at_def leaf_at_def map_of_fromEntries_const)
  from keys user parent show ?thesis
    unfolding Let_def pl_def [symmetric] patch_def [symmetric] by blast
qed

theorem getStateToPutForDefault_never_witness:
  "first_value [(''default'', ''never'')] = Some ''never'' \<and>
   getCurrentProviders ''alerts'' [(''alerts'', [(''user'', [(''me'', [(''email'', ''always''), (''slack'', ''always'')])])])]
     = [''email'', ''slack''] \<and>
   level_at (getStateToPutForDefault ''alerts''
       [(''alerts'', [(''user'', [(''me'', [(''email'', ''always''), (''slack'', ''always'')])])])]
       [(''default'', ''never'')] [''10'', ''20'']) ''alerts'' ''user'' ''me'' ''slack'' = Some (Some ''never'') \<and>
   level_at (getStateToPutForDefault ''alerts''
       [(''alerts'', [(''user'', [(''me'', [(''email'', ''always''), (''slack'', ''always'')])])])]
       [(''default'', ''never'')] [''10'', ''20'']) ''alerts'' ''project'' ''10'' ''email'' = Some (Some ''default'') \<and>
   level_at (getStateToPutForDefault ''alerts''
       [(''alerts'', [(''user'', [(''me'', [(''email'', ''always''), (''slack'', ''always'')])])])]
       [(''default'', ''never'')] [''10'', ''20'']) ''alerts'' ''project'' ''20'' ''slack'' = Some (Some ''default'')"
proof -
  let ?tree = "[(''alerts'', [(''user'', [(''me'', [(''email'', ''always''), (''slack'', ''always'')])])])]"
  have h: "first_value [(''default'', ''never'')] = Some ''never''"
    by (simp add: first_value_def)
  have c: "getCurrentProviders ''alerts'' ?tree = [''email'', ''slack'']"
    by (simp add: getCurrentProviders_def getUserDefaultValues_def scope_or_empty_def array_pop_def)
  have pk: "getParentKey ''alerts'' = ''project''"
    by (simp add: getParentKey_def isGroupedByProject_def)
  from getStateToPutForDefault_never [OF h, of "''alerts''" ?tree "[''10'', ''20'']"] h c pk
  show ?thesis by (simp add: Let_def)
qed

text \<open>
  The whole patch on the empty tree; the parent ids are array indices, so the object
  enumerates them in numeric order.
\<close>

lemma getStateToPutForDefault_alerts_10_20:
  "getStateToPutForDefault ''alerts'' [] [(''default'', ''never'')] [''20'', ''10''] =
     [(''alerts'', [(''user'', [(''me'', [(''email'', Some ''never'')])]),
                    (''project'', [(''10'', [(''email'', Some ''default'')]), (''20'', [(''email'', Some ''default'')])])])]"
  by (simp add: getStateToPutForDefault_never_eq first_value_def getCurrentProviders_synthesized getUserDefaultValues_no_user scope_or_empty_def
        getParentKey_def isGroupedByProject_def fromEntries_def obj_set_def array_index_10 array_index_20 array_index_email)

subsection \<open>A change for one parent\<close>

text \<open>
  Claim C10. \<open>getStateToPutForParent\<close> has no \<^verbatim>\<open>["email"]\<close> fallback: for every tree on
  which \<open>getCurrentProviders\<close> returns the empty list, the patch maps the parent id, under
  the grouping scope of the type, to the empty provider mapping, so it changes no level of
  any provider.
\<close>

theorem getStateToPutForParent_no_providers:
  "getCurrentProviders t tree = [] \<Longrightarrow>
     getStateToPutForParent t tree changedData parentId = [(t, [(getParentKey t, [(parentId, [])])])]"
  by (simp add: getStateToPutForParent_def fromEntries_def)

theorem getStateToPutForParent_no_providers_witness:
  "getCurrentProviders ''alerts'' [(''alerts'', [(''user'', [(''me'', [(''email'', ''never''), (''slack'', ''never'')])])])] = [] \<and>
   getStateToPutForParent ''alerts'' [(''alerts'', [(''user'', [(''me'', [(''email'', ''never''), (''slack'', ''never'')])])])]
       [(''project'', ''always'')] ''7'' = [(''alerts'', [(''project'', [(''7'', [])])])]"
proof -
  let ?tree = "[(''alerts'', [(''user'', [(''me'', [(''email'', ''never''), (''slack'', ''never'')])])])]"
  have h: "getCurrentProviders ''alerts'' ?tree = []"
    by (simp add: getCurrentProviders_def getUserDefaultValues_def scope_or_empty_def array_pop_def)
  from h getStateToPutForParent_no_providers [OF h, of "[(''project'', ''always'')]" "''7''"]
  show ?thesis by (simp add: getParentKey_def isGroupedByProject_def)
qed

section \<open>Properties of the merge\<close>

subsection \<open>Paths\<close>

lemma split_on_no_sep: "c \<notin> set a \<Longrightarrow> split_on c a = [a]"
  by (induction a) auto

lemma split_on_append_sep:
  "c \<notin> set a \<Longrightarrow> split_on c (a @ c # rest) = a # split_on c rest"
  by (induction a) auto

lemma join_dot_3: "join_dot [t, s, i] = t @ CHR ''.'' # s @ CHR ''.'' # i"
  by (simp add: join_dot_def)

lemma stringToPath_join_dot:
  assumes "CHR ''.'' \<notin> set t" "CHR ''.'' \<notin> set s" "CHR ''.'' \<notin> set i"
  shows "stringToPath (join_dot [t, s, i]) = [t, s, i]"
  using assms by (simp add: stringToPath_def join_dot_3 split_on_append_sep split_on_no_sep)

lemma plain_key_storable:
  "plain_key k \<Longrightarrow> CHR ''.'' \<notin> set k \<and> \<not> unsafe_key k \<and> k \<noteq> ''length''"
  by (auto simp: plain_key_def unsafe_key_def object_prototype_names_def)

lemma is_scope_type_storable:
  "is_scope_type s \<Longrightarrow> CHR ''.'' \<notin> set s \<and> \<not> unsafe_key s \<and> s \<noteq> ''length''"
  by (auto simp: is_scope_type_def unsafe_key_def)

lemma castPath_join_dot:
  assumes "plain_path (t, s, i)" "dotfree_keys object"
  shows "castPath (join_dot [t, s, i]) object = [t, s, i]"
proof -
  have dot: "CHR ''.'' \<in> set (join_dot [t, s, i])"
    by (simp add: join_dot_3)
  with assms(2) have "join_dot [t, s, i] \<notin> set (map fst (props object))"
    by (auto simp: dotfree_keys_def list_all_iff)
  moreover from assms(1) have "CHR ''.'' \<notin> set t" "CHR ''.'' \<notin> set s" "CHR ''.'' \<notin> set i"
    using plain_key_storable is_scope_type_storable by (auto simp: plain_path_def)
  ultimately show ?thesis
    using dot by (simp add: castPath_def stringToPath_join_dot)
qed

subsection \<open>Reading after a write\<close>

lemma props_put: "isObject object \<Longrightarrow> props (put object k v) = obj_set k v (props object)"
  by (cases object) (simp_all add: put_def props_def isObject_def)

lemma isObject_put: "isObject (put object k v) = isObject object"
  by (cases object) (simp_all add: put_def isObject_def)

lemma json_at_put:
  "isObject object \<Longrightarrow>
     json_at (put object k v) (k' # q) = (if k' = k then json_at v q else json_at object (k' # q))"
  by (simp add: props_put map_of_obj_set)

lemma json_at_not_object: "\<not> isObject v \<Longrightarrow> q \<noteq> [] \<Longrightarrow> json_at v q = None"
  by (cases v; cases q) (simp_all add: isObject_def props_def)

lemma json_at_created: "q \<noteq> [] \<Longrightarrow> json_at (if b then JArr [] else JObj []) q = None"
  by (cases q) (simp_all add: props_def)

lemma baseSet_step:
  assumes "\<not> unsafe_key k" "k \<noteq> ''length''" "ks \<noteq> []"
  shows "baseSet nested (k # ks) leaf =
     (case baseSet (case map_of (props nested) k of
                      None \<Rightarrow> if isIndex (hd ks) then JArr [] else JObj []
                    | Some objValue \<Rightarrow> if isObject objValue then objValue
                        else if isIndex (hd ks) then JArr [] else JObj []) ks leaf of
        Inl e \<Rightarrow> Inl e
      | Inr child \<Rightarrow> Inr (put nested k child))"
  using assms by (simp add: Let_def)

lemma baseSet_last:
  assumes "\<not> unsafe_key k" "k \<noteq> ''length''"
  shows "baseSet nested [k] leaf = Inr (put nested k (providers_json leaf))"
  using assms by (simp add: assignValue_def)

lemma baseSet_stores:
  assumes "isObject nested" "p \<noteq> []" "list_all (\<lambda>k. \<not> unsafe_key k \<and> k \<noteq> ''length'') p"
  shows "\<exists>nested'. baseSet nested p leaf = Inr nested' \<and> isObject nested' \<and>
           set (map fst (props nested')) \<subseteq> insert (hd p) (set (map fst (props nested))) \<and>
           (\<forall>q. length q = length p \<longrightarrow>
              json_at nested' q = (if q = p then Some (providers_json leaf) else json_at nested q))"
  using assms
proof (induction p arbitrary: nested)
  case Nil
  then show ?case by simp
next
  case (Cons k ks)
  from Cons.prems(3) have safe: "\<not> unsafe_key k" "k \<noteq> ''length''"
    and safes: "list_all (\<lambda>k. \<not> unsafe_key k \<and> k \<noteq> ''length'') ks"
    by simp_all
  have keys: "set (map fst (props (put nested k v))) \<subseteq> insert k (set (map fst (props nested)))" for v
    using Cons.prems(1) by (simp del: set_map add: props_put set_keys_obj_set)
  show ?case
  proof (cases ks)
    case Nil
    have "json_at (put nested k (providers_json leaf)) q =
        (if q = [k] then Some (providers_json leaf) else json_at nested q)"
      if "length q = length [k]" for q
    proof -
      from that obtain k' where "q = [k']" by (cases q) auto
      then show ?thesis using Cons.prems(1) by (simp add: json_at_put del: json_at.simps(2))
    qed
    then show ?thesis
      using Nil baseSet_last [OF safe] keys Cons.prems(1) by (simp add: isObject_put)
  next
    case (Cons k2 ks2)
    define created where "created = (if isIndex (hd ks) then JArr [] else JObj [])"
    define newValue where "newValue = (case map_of (props nested) k of
            None \<Rightarrow> created
          | Some objValue \<Rightarrow> if isObject objValue then objValue else created)"
    have ks_ne: "ks \<noteq> []" using Cons by simp
    have obj_new: "isObject newValue"
      by (auto simp: newValue_def created_def isObject_def split: option.splits)
    from Cons.IH [OF obj_new ks_ne safes] obtain child where
      child: "baseSet newValue ks leaf = Inr child" and obj_child: "isObject child" and
      reads: "\<And>q. length q = length ks \<Longrightarrow>
         json_at child q = (if q = ks then Some (providers_json leaf) else json_at newValue q)"
      by blast
    have eq: "baseSet nested (k # ks) leaf = Inr (put nested k child)"
      using child unfolding baseSet_step [OF safe ks_ne] newValue_def created_def by simp
    have old: "json_at nested (k # q) = json_at newValue q" if "q \<noteq> []" for q
    proof (cases "map_of (props nested) k")
      case None
      then show ?thesis using that by (simp add: newValue_def created_def json_at_created)
    next
      case (Some objValue)
      then show ?thesis
        using that json_at_not_object [of objValue q]
        by (simp add: newValue_def created_def json_at_created)
    qed
    have "json_at (put nested k child) q =
        (if q = k # ks then Some (providers_json leaf) else json_at nested q)"
      if len: "length q = length (k # ks)" for q
    proof -
      from len obtain k' q' where q: "q = k' # q'" and len': "length q' = length ks"
        by (cases q) auto
      from len' ks_ne have "q' \<noteq> []" by auto
      then show ?thesis
        using reads [OF len'] old [of q'] Cons.prems(1)
        by (auto simp add: q json_at_put simp del: json_at.simps(2))
    qed
    then show ?thesis
      using eq keys Cons.prems(1) by (simp add: isObject_put)
  qed
qed

lemma merge_step_stores:
  assumes "plain_path (t, s, i)" "isObject out" "dotfree_keys out"
  shows "\<exists>out'. merge_step out ((t, s, i), m) = Inr out' \<and> isObject out' \<and> dotfree_keys out' \<and>
           (\<forall>t' s' i'. json_at out' [t', s', i'] =
              (if (t', s', i') = (t, s, i) then Some (providers_json m) else json_at out [t', s', i']))"
proof -
  from assms(1) have storable: "list_all (\<lambda>k. \<not> unsafe_key k \<and> k \<noteq> ''length'') [t, s, i]"
    and t: "CHR ''.'' \<notin> set t"
    using plain_key_storable is_scope_type_storable by (auto simp: plain_path_def)
  have step: "merge_step out ((t, s, i), m) = baseSet out [t, s, i] m"
    using assms(2) by (simp add: merge_step_def lodash_set_def castPath_join_dot [OF assms(1,3)])
  from baseSet_stores [OF assms(2) _ storable, of m] obtain out' where
    eq: "baseSet out [t, s, i] m = Inr out'" and obj: "isObject out'" and
    keys: "set (map fst (props out')) \<subseteq> insert t (set (map fst (props out)))" and
    reads: "\<And>q. length q = 3 \<Longrightarrow>
       json_at out' q = (if q = [t, s, i] then Some (providers_json m) else json_at out q)"
    by auto
  have "dotfree_keys out'"
    using keys t assms(3) unfolding dotfree_keys_def list_all_iff by blast
  moreover have "json_at out' [t', s', i'] =
      (if (t', s', i') = (t, s, i) then Some (providers_json m) else json_at out [t', s', i'])"
    for t' s' i'
    using reads [of "[t', s', i']"] by simp
  ultimately show ?thesis
    using step eq obj by simp
qed

subsection \<open>The merge as one loop\<close>

lemma fold_err_merge_step:
  assumes "list_all (\<lambda>e. plain_path (fst e)) es" "isObject out" "dotfree_keys out"
  shows "\<exists>out'. fold_err merge_step es out = Inr out' \<and>
           json_at out' [t, s, i] =
             (case map_of (rev es) (t, s, i) of
                Some m \<Rightarrow> Some (providers_json m)
              | None \<Rightarrow> json_at out [t, s, i])"
  using assms
proof (induction es arbitrary: out)
  case Nil
  show ?case by simp
next
  case (Cons e es)
  obtain t' s' i' m where e: "e = ((t', s', i'), m)"
    by (cases e) auto
  from Cons.prems(1) have pe: "plain_path (t', s', i')" and pes: "list_all (\<lambda>e. plain_path (fst e)) es"
    by (simp_all add: e)
  from merge_step_stores [OF pe Cons.prems(2,3), of m] obtain mid where
    mid: "merge_step out e = Inr mid" and obj: "isObject mid" and df: "dotfree_keys mid" and
    read: "json_at mid [t, s, i] =
       (if (t, s, i) = (t', s', i') then Some (providers_json m) else json_at out [t, s, i])"
    unfolding e by blast
  from Cons.IH [OF pes obj df] obtain out' where
    out': "fold_err merge_step es mid = Inr out'" and
    read': "json_at out' [t, s, i] =
       (case map_of (rev es) (t, s, i) of
          Some m \<Rightarrow> Some (providers_json m)
        | None \<Rightarrow> json_at mid [t, s, i])"
    by blast
  have "fold_err merge_step (e # es) out = Inr out'"
    using mid out' by simp
  moreover have "json_at out' [t, s, i] =
      (case map_of (rev (e # es)) (t, s, i) of
         Some m \<Rightarrow> Some (providers_json m)
       | None \<Rightarrow> json_at out [t, s, i])"
    using read read' by (auto simp add: e map_add_def split: option.splits)
  ultimately show ?case by blast
qed

lemma fold_err_append:
  "fold_err f (xs @ ys) s = (case fold_err f xs s of Inl e \<Rightarrow> Inl e | Inr s' \<Rightarrow> fold_err f ys s')"
  by (induction xs arbitrary: s) (simp_all split: sum.splits)

lemma fold_err_concat_map:
  "fold_err f (concat (map g xs)) s = fold_err (\<lambda>s x. fold_err f (g x) s) xs s"
  by (induction xs arbitrary: s) (simp_all add: fold_err_append split: sum.splits)

lemma fold_err_map: "fold_err f (map h xs) s = fold_err (\<lambda>s x. f s (h x)) xs s"
  by (induction xs arbitrary: s) (simp_all split: sum.splits)

lemma fold_err_entries_of:
  "fold_err merge_step (entries_of tree) out =
     fold_err (\<lambda>out (type, settingsByScopeType).
       fold_err (\<lambda>out (scopeType, settingsByScopeId).
         fold_err (\<lambda>out (scopeId, settingsByProvider).
                     lodash_set out (join_dot [type, scopeType, scopeId]) settingsByProvider)
           settingsByScopeId out)
         settingsByScopeType out)
       tree out"
  unfolding entries_of_def
  by (simp add: fold_err_concat_map fold_err_map merge_step_def case_prod_unfold)

lemma mergeNotificationSettings_fold:
  "mergeNotificationSettings objects = fold_err merge_step (concat (map entries_of objects)) (JObj [])"
  by (simp add: mergeNotificationSettings_def fold_err_concat_map fold_err_entries_of)

subsection \<open>The leaves of a tree\<close>

lemma entries_of_iff:
  "((t, s, i), m) \<in> set (entries_of tree) \<longleftrightarrow>
     (\<exists>byScopeType byScopeId.
        (t, byScopeType) \<in> set tree \<and> (s, byScopeId) \<in> set byScopeType \<and> (i, m) \<in> set byScopeId)"
  by (fastforce simp: entries_of_def)

lemma entries_of_leaf_at:
  assumes "wf_settings tree"
  shows "((t, s, i), m) \<in> set (entries_of tree) \<longleftrightarrow> leaf_at tree t s i = Some m"
proof
  assume "((t, s, i), m) \<in> set (entries_of tree)"
  then obtain a b where a: "(t, a) \<in> set tree" and b: "(s, b) \<in> set a" and m: "(i, m) \<in> set b"
    unfolding entries_of_iff by blast
  from assms a have da: "distinct (map fst a)"
    by (auto simp: wf_settings_def list_all_iff)
  from assms a b have db: "distinct (map fst b)"
    by (auto simp: wf_settings_def list_all_iff)
  from assms have dt: "distinct (map fst tree)"
    by (simp add: wf_settings_def)
  from dt a have "map_of tree t = Some a" by simp
  moreover from da b have "map_of a s = Some b" by simp
  moreover from db m have "map_of b i = Some m" by simp
  ultimately show "leaf_at tree t s i = Some m"
    by (simp add: leaf_at_def)
next
  assume "leaf_at tree t s i = Some m"
  then obtain a b where "map_of tree t = Some a" "map_of a s = Some b" "map_of b i = Some m"
    by (auto simp: leaf_at_def split: option.splits)
  then have "(t, a) \<in> set tree" "(s, b) \<in> set a" "(i, m) \<in> set b"
    by (auto dest: map_of_SomeD)
  then show "((t, s, i), m) \<in> set (entries_of tree)"
    unfolding entries_of_iff by blast
qed

lemma map_of_rev_entries_of:
  assumes "wf_settings tree"
  shows "map_of (rev (entries_of tree)) (t, s, i) = leaf_at tree t s i"
proof (cases "map_of (rev (entries_of tree)) (t, s, i)")
  case None
  then have "(t, s, i) \<notin> fst ` set (entries_of tree)"
    by (simp add: map_of_eq_None_iff)
  then have "\<And>m. leaf_at tree t s i \<noteq> Some m"
    using entries_of_leaf_at [OF assms, of t s i] by (metis fst_conv image_eqI)
  with None show ?thesis by (cases "leaf_at tree t s i") auto
next
  case (Some m)
  then have "((t, s, i), m) \<in> set (entries_of tree)"
    by (auto dest: map_of_SomeD)
  with Some show ?thesis
    by (simp add: entries_of_leaf_at [OF assms])
qed

lemma map_of_rev_entries_absent:
  assumes "list_all wf_settings trees" "list_all (\<lambda>tree. leaf_at tree t s i = None) trees"
  shows "map_of (rev (concat (map entries_of trees))) (t, s, i) = None"
  using assms
  by (induction trees) (simp_all add: map_add_def map_of_rev_entries_of)

lemma plain_entries_of:
  assumes "plain_settings tree"
  shows "list_all (\<lambda>e. plain_path (fst e)) (entries_of tree)"
proof -
  have "plain_path (t, s, i)" if "((t, s, i), m) \<in> set (entries_of tree)" for t s i m
    using that assms unfolding entries_of_iff plain_settings_def plain_path_def list_all_iff
    by fastforce
  then show ?thesis
    unfolding list_all_iff by auto
qed

lemma plain_entries_of_trees:
  "list_all plain_settings trees \<Longrightarrow>
     list_all (\<lambda>e. plain_path (fst e)) (concat (map entries_of trees))"
  by (induction trees) (simp_all add: plain_entries_of)

subsection \<open>Right bias\<close>

text \<open>
  Claim C7, as the code has it. \<open>mergeNotificationSettings\<close> is right-biased per path
  for trees of the data model with plain keys: the notification types and the scope ids are
  plain keys (none of the characters \<^verbatim>\<open>.\<close>, \<^verbatim>\<open>[\<close> and \<^verbatim>\<open>]\<close> in them; not
  \<^verbatim>\<open>prototype\<close>, not \<^verbatim>\<open>length\<close>, and not a property name of \<^verbatim>\<open>Object.prototype\<close>
  such as \<^verbatim>\<open>constructor\<close>, \<^verbatim>\<open>__proto__\<close> or \<^verbatim>\<open>toString\<close>), and the scope types are
  \<^verbatim>\<open>user\<close>, \<^verbatim>\<open>project\<close> or \<^verbatim>\<open>organization\<close>. For every sequence of such trees and
  every path \<open>(type, scopeType, scopeId)\<close> that some tree of the sequence has, the merge
  returns without throwing, and its output holds at that path the provider mapping of the
  last tree that has the path, whole: nothing of an earlier tree's mapping at that path is
  kept.
\<close>

theorem mergeNotificationSettings_right_biased:
  assumes "list_all wf_settings (before @ tree # after)"
      and "list_all plain_settings (before @ tree # after)"
      and "leaf_at tree t s i = Some m"
      and "list_all (\<lambda>later. leaf_at later t s i = None) after"
  shows "\<exists>output. mergeNotificationSettings (before @ tree # after) = Inr output \<and>
           json_at output [t, s, i] = Some (providers_json m)"
proof -
  let ?es = "concat (map entries_of (before @ tree # after))"
  from assms(1) have wf_tree: "wf_settings tree" and wf_after: "list_all wf_settings after"
    by simp_all
  have last_write: "map_of (rev ?es) (t, s, i) = Some m"
    using map_of_rev_entries_absent [OF wf_after assms(4)] assms(3)
    by (simp add: map_add_def map_of_rev_entries_of [OF wf_tree])
  have "isObject (JObj [])" "dotfree_keys (JObj [])"
    by (simp_all add: isObject_def dotfree_keys_def props_def)
  from fold_err_merge_step [OF plain_entries_of_trees [OF assms(2)] this, of t s i]
  obtain out where
    returned: "fold_err merge_step ?es (JObj []) = Inr out" and
    read: "json_at out [t, s, i] =
       (case map_of (rev ?es) (t, s, i) of
          Some m \<Rightarrow> Some (providers_json m)
        | None \<Rightarrow> json_at (JObj []) [t, s, i])"
    by blast
  from read have "json_at out [t, s, i] = Some (providers_json m)"
    by (simp only: last_write option.case)
  with returned show ?thesis
    unfolding mergeNotificationSettings_fold by blast
qed

theorem mergeNotificationSettings_right_biased_witness:
  "list_all wf_settings
      [[(''alerts'', [(''project'', [(''1'', [(''email'', ''always''), (''slack'', ''always'')])])])],
       [(''alerts'', [(''project'', [(''1'', [(''email'', ''never'')]),
                                     (''7'', [(''email'', ''always'')])])])]] \<and>
   list_all plain_settings
      [[(''alerts'', [(''project'', [(''1'', [(''email'', ''always''), (''slack'', ''always'')])])])],
       [(''alerts'', [(''project'', [(''1'', [(''email'', ''never'')]),
                                     (''7'', [(''email'', ''always'')])])])]] \<and>
   merged_at (mergeNotificationSettings
      [[(''alerts'', [(''project'', [(''1'', [(''email'', ''always''), (''slack'', ''always'')])])])],
       [(''alerts'', [(''project'', [(''1'', [(''email'', ''never'')]),
                                     (''7'', [(''email'', ''always'')])])])]])
     [''alerts'', ''project'', ''1''] = Some (JObj [(''email'', JStr ''never'')])"
proof -
  let ?a = "[(''alerts'', [(''project'', [(''1'', [(''email'', ''always''), (''slack'', ''always'')])])])]"
  let ?b = "[(''alerts'', [(''project'', [(''1'', [(''email'', ''never'')]),
                                          (''7'', [(''email'', ''always'')])])])]"
  have wf: "list_all wf_settings ([?a] @ ?b # [])"
    by (simp add: wf_settings_def)
  have plain: "list_all plain_settings ([?a] @ ?b # [])"
    by (simp add: plain_settings_def plain_key_def is_scope_type_def object_prototype_names_def)
  have leaf: "leaf_at ?b ''alerts'' ''project'' ''1'' = Some [(''email'', ''never'')]"
    by (simp add: leaf_at_def)
  have none: "list_all (\<lambda>later. leaf_at later ''alerts'' ''project'' ''1'' = None) []"
    by simp
  from mergeNotificationSettings_right_biased [OF wf plain leaf none]
  have "merged_at (mergeNotificationSettings ([?a] @ ?b # [])) [''alerts'', ''project'', ''1'']
          = Some (providers_json [(''email'', ''never'')])"
    by (auto simp: merged_at_def)
  with wf plain show ?thesis by (simp add: providers_json_def)
qed

text \<open>
  A scope id with a dot is read by lodash as two steps of the path: the tree
  \<^verbatim>\<open>{alerts: {project: {"web.app": {email: "always"}}}}\<close> has a provider mapping at
  \<open>(alerts, project, web.app)\<close>, and the output of merging it alone has nothing there;
  the mapping is at \<^verbatim>\<open>alerts.project.web.app\<close>, one level deeper.
\<close>

lemma isIndex_1: "isIndex ''1''" and not_isIndex_webapp: "\<not> isIndex ''web''" "\<not> isIndex ''app''"
  and not_isIndex_project: "\<not> isIndex ''project''" "\<not> isIndex ''length''"
  by (simp_all add: isIndex_def is_digit_def digit_val_def)

theorem mergeNotificationSettings_dotted_key_counterexample:
  "leaf_at [(''alerts'', [(''project'', [(''web.app'', [(''email'', ''always'')])])])]
     ''alerts'' ''project'' ''web.app'' = Some [(''email'', ''always'')] \<and>
   mergeNotificationSettings
       [[(''alerts'', [(''project'', [(''web.app'', [(''email'', ''always'')])])])]]
     = Inr (JObj [(''alerts'', JObj [(''project'', JObj [(''web'',
              JObj [(''app'', JObj [(''email'', JStr ''always'')])])])])]) \<and>
   merged_at (mergeNotificationSettings
       [[(''alerts'', [(''project'', [(''web.app'', [(''email'', ''always'')])])])]])
     [''alerts'', ''project'', ''web.app''] = None"
  by (simp add: leaf_at_def mergeNotificationSettings_def lodash_set_def castPath_def
      stringToPath_def join_dot_def unsafe_key_def obj_set_def providers_json_def
      isObject_def is_array_def props_def put_def assignValue_def merged_at_def
      not_isIndex_webapp not_isIndex_project)

text \<open>
  Where the first scope id written under a scope type is an index, lodash creates an array
  for the scope ids. A later scope id \<^verbatim>\<open>length\<close> then is a write of a provider mapping
  to the length of that array, which throws.
\<close>

lemma array_index_1: "array_index ''1'' = Some 1" and array_index_length: "array_index ''length'' = None"
  by (simp_all add: array_index_def is_digit_def digit_val_def)

lemma mergeNotificationSettings_index_id:
  "mergeNotificationSettings [[(''alerts'', [(''project'', [(''1'', [(''email'', ''always'')])])])]]
     = Inr (JObj [(''alerts'', JObj [(''project'', JArr [(''1'', JObj [(''email'', JStr ''always'')])])])])"
  by (simp add: mergeNotificationSettings_def lodash_set_def castPath_def
      stringToPath_def join_dot_def unsafe_key_def obj_set_def providers_json_def
      isObject_def is_array_def props_def put_def assignValue_def
      isIndex_1 not_isIndex_project)

lemma mergeNotificationSettings_length_id:
  "mergeNotificationSettings
     [[(''alerts'', [(''project'', [(''1'', [(''email'', ''always'')])])])],
      [(''alerts'', [(''project'', [(''length'', [(''email'', ''never'')])])])]]
     = Inl RangeError"
  by (simp add: mergeNotificationSettings_def lodash_set_def castPath_def
      stringToPath_def join_dot_def unsafe_key_def obj_set_def providers_json_def
      isObject_def is_array_def props_def put_def assignValue_def set_length_to_def
      isIndex_1 not_isIndex_project)

lemma mergeNotificationSettings_length_id_one_tree:
  "mergeNotificationSettings
     [[(''alerts'', [(''project'', [(''1'', [(''email'', ''always'')]),
                                    (''length'', [(''email'', ''never'')])])])]]
     = Inl RangeError"
  by (simp add: mergeNotificationSettings_def lodash_set_def castPath_def
      stringToPath_def join_dot_def unsafe_key_def obj_set_def providers_json_def
      isObject_def is_array_def props_def put_def assignValue_def set_length_to_def
      isIndex_1 not_isIndex_project)

text \<open>The example of the specification: the later tree's mapping is the one kept.\<close>

lemma mergeNotificationSettings_user_me:
  "mergeNotificationSettings
     [[(''alerts'', [(''user'', [(''me'', [(''email'', ''always'')])])])],
      [(''alerts'', [(''user'', [(''me'', [(''email'', ''never'')])])])]]
     = Inr (JObj [(''alerts'', JObj [(''user'', JObj [(''me'', JObj [(''email'', JStr ''never'')])])])])"
  by (simp add: mergeNotificationSettings_def lodash_set_def castPath_def
      stringToPath_def join_dot_def unsafe_key_def obj_set_def providers_json_def
      isObject_def is_array_def props_def put_def assignValue_def isIndex_def is_digit_def)

end
